theory Spec2Isabelle
  imports Main "HOL-Library.Product_Lexorder"
begin

section \<open>Python strings\<close>

text \<open>
  A Python \<open>str\<close> is a sequence of code points and \<open>len\<close> counts code points. The
  model is \<open>string\<close>, one \<open>char\<close> per code point, for the code points below 256
  (Latin-1). The three character classes below are the ones of CPython on that range:
  \<open>str.isspace\<close> (used by \<open>split()\<close> and \<open>strip()\<close>), the line boundaries of
  \<open>splitlines()\<close>, and the word characters of the regular expression \<open>\w\<close>.
\<close>

definition ord :: "char \<Rightarrow> nat" where
  "ord c = of_char c"

definition is_space :: "char \<Rightarrow> bool" where
  "is_space c = (let n = ord c in (9 \<le> n \<and> n \<le> 13) \<or> (28 \<le> n \<and> n \<le> 32) \<or> n = 133 \<or> n = 160)"

definition is_linebreak :: "char \<Rightarrow> bool" where
  "is_linebreak c = (let n = ord c in (10 \<le> n \<and> n \<le> 13) \<or> (28 \<le> n \<and> n \<le> 30) \<or> n = 133)"

definition is_word :: "char \<Rightarrow> bool" where
  "is_word c = (let n = ord c in
     (48 \<le> n \<and> n \<le> 57) \<or> (65 \<le> n \<and> n \<le> 90) \<or> n = 95 \<or> (97 \<le> n \<and> n \<le> 122)
     \<or> n = 170 \<or> n = 178 \<or> n = 179 \<or> n = 181 \<or> n = 185 \<or> n = 186
     \<or> (188 \<le> n \<and> n \<le> 190) \<or> (192 \<le> n \<and> n \<le> 214) \<or> (216 \<le> n \<and> n \<le> 246)
     \<or> 248 \<le> n)"

definition lower_char :: "char \<Rightarrow> char" where
  "lower_char c = (let n = ord c in
     if (65 \<le> n \<and> n \<le> 90) \<or> (192 \<le> n \<and> n \<le> 222 \<and> n \<noteq> 215) then char_of (n + 32) else c)"

text \<open>\<open>s.lower()\<close>\<close>

definition lower :: "string \<Rightarrow> string" where
  "lower s = map lower_char s"

text \<open>\<open>s.strip()\<close>: whitespace removed at both ends.\<close>

definition strip :: "string \<Rightarrow> string" where
  "strip s = rev (dropWhile is_space (rev (dropWhile is_space s)))"

text \<open>
  \<open>s.split()\<close>: the maximal runs of non-whitespace characters, in order. The first
  argument is the word being read.
\<close>

fun split_acc :: "string \<Rightarrow> string \<Rightarrow> string list" where
  "split_acc cur [] = (if cur = [] then [] else [cur])"
| "split_acc cur (c # cs) =
     (if is_space c then (if cur = [] then split_acc [] cs else cur # split_acc [] cs)
      else split_acc (cur @ [c]) cs)"

definition split :: "string \<Rightarrow> string list" where
  "split s = split_acc [] s"

text \<open>
  \<open>s.splitlines()\<close>: the lines of \<open>s\<close> without their line boundaries; a carriage
  return followed by a line feed is one boundary, and there is no empty last line.
\<close>

fun splitlines_acc :: "string \<Rightarrow> string \<Rightarrow> string list" where
  "splitlines_acc cur [] = (if cur = [] then [] else [cur])"
| "splitlines_acc cur (c # cs) =
     (if is_linebreak c then
        (if ord c = 13 then
           (case cs of
              [] \<Rightarrow> [cur]
            | d # ds \<Rightarrow> if ord d = 10 then cur # splitlines_acc [] ds
                        else cur # splitlines_acc [] (d # ds))
         else cur # splitlines_acc [] cs)
      else splitlines_acc (cur @ [c]) cs)"

definition splitlines :: "string \<Rightarrow> string list" where
  "splitlines s = splitlines_acc [] s"

text \<open>\<open>sep.join(xs)\<close>\<close>

fun join :: "string \<Rightarrow> string list \<Rightarrow> string" where
  "join sep [] = []"
| "join sep [x] = x"
| "join sep (x # y # ys) = x @ sep @ join sep (y # ys)"

text \<open>\<open>re.sub(r'\W+', '', s)\<close>: every run of non-word characters is deleted.\<close>

definition sub_nonword :: "string \<Rightarrow> string" where
  "sub_nonword s = filter is_word s"

text \<open>\<open>'{}'.format(n)\<close> for an integer \<open>n\<close>: its decimal numeral.\<close>

fun str_nat :: "nat \<Rightarrow> string" where
  "str_nat n = (if n < 10 then [char_of (48 + n)] else str_nat (n div 10) @ [char_of (48 + n mod 10)])"

definition str_int :: "int \<Rightarrow> string" where
  "str_int i = (if i < 0 then CHR ''-'' # str_nat (nat (- i)) else str_nat (nat i))"

section \<open>Python containers\<close>

datatype py_error = AttributeError | IndexError

text \<open>\<open>xs[0]\<close>, which raises IndexError on the empty list.\<close>

fun index0 :: "'a list \<Rightarrow> py_error + 'a" where
  "index0 [] = Inl IndexError"
| "index0 (x # xs) = Inr x"

text \<open>
  \<open>sorted(xs, key=key, reverse=True)\<close>: CPython reverses the list, sorts it stably in
  ascending order and reverses it again, so that elements with equal keys keep their
  order.
\<close>

definition sorted_rev :: "('a \<Rightarrow> 'k::linorder) \<Rightarrow> 'a list \<Rightarrow> 'a list" where
  "sorted_rev key xs = rev (sort_key key (rev xs))"

text \<open>\<open>itertools.combinations(xs, 2)\<close>: the pairs of positions \<open>i < j\<close>, in order.\<close>

fun combinations :: "'a list \<Rightarrow> ('a \<times> 'a) list" where
  "combinations [] = []"
| "combinations (x # xs) = map (Pair x) xs @ combinations xs"

text \<open>
  A \<open>dict\<close> keeps its keys in the order of their first insertion: an association list
  with distinct keys. \<open>d[k] = v\<close> replaces the value of a key in place or appends the
  key; \<open>d.get(k)\<close> is \<open>map_of d k\<close>.
\<close>

fun dict_set :: "('k \<times> 'v) list \<Rightarrow> 'k \<Rightarrow> 'v \<Rightarrow> ('k \<times> 'v) list" where
  "dict_set [] k v = [(k, v)]"
| "dict_set ((k', v') # d) k v = (if k' = k then (k', v) # d else (k', v') # dict_set d k v)"

text \<open>A dict built from a sequence of pairs: later pairs overwrite earlier ones.\<close>

definition dict_of :: "('k \<times> 'v) list \<Rightarrow> ('k \<times> 'v) list" where
  "dict_of kvs = foldl (\<lambda>d (k, v). dict_set d k v) [] kvs"

section \<open>External libraries\<close>

text \<open>
  \<open>P = inflect.engine().plural\<close> after \<open>defnoun('The', 'All')\<close>: the word itself for
  the count 1 and its plural for every other count. The module passes it four words:
  \<open>The\<close>, \<open>record\<close>, \<open>is\<close> and \<open>blank\<close>.
\<close>

definition plural_word :: "string \<Rightarrow> string" where
  "plural_word w = (if w = ''The'' then ''All'' else if w = ''is'' then ''are'' else w @ ''s'')"

definition P :: "string \<Rightarrow> int \<Rightarrow> string" where
  "P w n = (if n = 1 then w else plural_word w)"

text \<open>
  The two scorers of the module \<open>fuzz\<close> of fuzzywuzzy are not part of the repository:
  they are parameters of the model.
\<close>

record fuzz =
  partial_ratio :: "string \<Rightarrow> string \<Rightarrow> int"
  token_set_ratio :: "string \<Rightarrow> string \<Rightarrow> int"

section \<open>lib/column\_types/userWeightedText.py\<close>

datatype FuzzyRatioScore = FuzzyRatioScore (frs_score: int) (frs_value: string)

datatype FuzzySetScore = FuzzySetScore (fss_score: int) (fss_value: string) (fss_tokens: nat)

datatype ExactScore = ExactScore (es_value: string) (es_count: nat)

text \<open>
  The namespace returned by \<open>parse_command_line\<close> (reconcile.py), as far as the text
  strategy reads it. Lines 142 to 148 of reconcile.py replace \<open>user_weights\<close> by a
  dict from lowercased user names to integers, empty when the option is absent.
\<close>

record args =
  user_weights :: "(string \<times> int) list"
  fuzzy_ratio_threshold :: int
  fuzzy_set_threshold :: int

text \<open>
  A group is a pandas Series: the entries of one field of one subject in their original
  order, each with its index label once the grouping level of the index is dropped (the
  name of the user who wrote the entry). An entry is given as \<open>str(g)\<close>. The
  variable \<open>group\<close> of the source is \<open>grp\<close> here.
\<close>

type_synonym group = "(string \<times> string) list"

text \<open>
  \<open>'\n'.join([' '.join(ln.split()) for ln in str(line).splitlines()])\<close>, the
  expression of \<open>convLine\<close> and of line 24 of \<open>reconcile\<close>.
\<close>

definition convLine :: "string \<Rightarrow> string" where
  "convLine line = join [CHR 0x0A] (map (\<lambda>ln. join '' '' (split ln)) (splitlines line))"

subsection \<open>only\_filled\_values\<close>

text \<open>The body of the first loop, on the dict \<open>all_filled\<close>.\<close>

definition add_filled :: "(string \<times> string list) list \<Rightarrow> string \<Rightarrow> (string \<times> string list) list" where
  "add_filled all_filled v =
     (let value = strip v in
      if value \<noteq> [] then
        (let squished = lower (sub_nonword value);
             same_values = (case map_of all_filled squished of None \<Rightarrow> [] | Some vs \<Rightarrow> vs)
         in dict_set all_filled squished (same_values @ [value]))
      else all_filled)"

definition all_filled_of :: "string list \<Rightarrow> (string \<times> string list) list" where
  "all_filled_of values = foldl add_filled [] values"

text \<open>The second loop, over \<open>all_filled.items()\<close>.\<close>

fun longest_each :: "(string \<times> string list) list \<Rightarrow> py_error + ExactScore list" where
  "longest_each [] = Inr []"
| "longest_each ((k, vals) # items) =
     (case index0 (sorted_rev length vals) of
        Inl e \<Rightarrow> Inl e
      | Inr longest \<Rightarrow>
          (case longest_each items of
             Inl e \<Rightarrow> Inl e
           | Inr only_filled \<Rightarrow> Inr (ExactScore longest (length vals) # only_filled)))"

definition only_filled_values :: "string list \<Rightarrow> py_error + ExactScore list" where
  "only_filled_values values =
     (case longest_each (all_filled_of values) of
        Inl e \<Rightarrow> Inl e
      | Inr only_filled \<Rightarrow> Inr (sorted_rev es_count only_filled))"

subsection \<open>top\_partial\_ratio\<close>

text \<open>
  \<open>userAttribution\<close>: the Series as a dict from index label to entry, then inverted
  to a dict from entry to index label.
\<close>

definition userAttribution_of :: "(string \<times> string) list \<Rightarrow> (string \<times> string) list" where
  "userAttribution_of values = dict_of (map (\<lambda>i. (snd i, fst i)) (dict_of values))"

text \<open>The body of the loop over the pairs.\<close>

definition ratio_score ::
  "fuzz \<Rightarrow> (string \<times> string) list \<Rightarrow> (string \<times> int) list \<Rightarrow> string \<times> string \<Rightarrow> FuzzyRatioScore" where
  "ratio_score fz userAttribution trustedUserWeights combo =
     (let score = partial_ratio fz (fst combo) (snd combo);
          value = (if length (fst combo) \<ge> length (snd combo) then fst combo else snd combo);
          userName = map_of userAttribution value;
          scoreWeight = (case userName of
                           None \<Rightarrow> 0
                         | Some u \<Rightarrow> (case map_of trustedUserWeights u of None \<Rightarrow> 0 | Some w \<Rightarrow> w));
          score = score + scoreWeight;
          score = (if score > 100 then 100 else score)
      in FuzzyRatioScore score value)"

definition ratio_scores :: "fuzz \<Rightarrow> group \<Rightarrow> (string \<times> int) list \<Rightarrow> FuzzyRatioScore list" where
  "ratio_scores fz grp trustedUserWeights =
     (let values = map (\<lambda>(u, line). (u, convLine line)) grp;
          userAttribution = userAttribution_of values
      in map (ratio_score fz userAttribution trustedUserWeights) (combinations (map snd values)))"

definition top_partial_ratio :: "fuzz \<Rightarrow> group \<Rightarrow> (string \<times> int) list \<Rightarrow> py_error + FuzzyRatioScore" where
  "top_partial_ratio fz grp trustedUserWeights =
     index0 (sorted_rev (\<lambda>s. (frs_score s, length (frs_value s)))
              (ratio_scores fz grp trustedUserWeights))"

subsection \<open>top\_token\_set\_ratio\<close>

definition set_score :: "fuzz \<Rightarrow> string \<times> string \<Rightarrow> FuzzySetScore" where
  "set_score fz combo =
     (let score = token_set_ratio fz (fst combo) (snd combo);
          tokens_0 = length (split (fst combo));
          tokens_1 = length (split (snd combo))
      in if tokens_0 > tokens_1 then FuzzySetScore score (fst combo) tokens_0
         else if tokens_0 < tokens_1 then FuzzySetScore score (snd combo) tokens_1
         else FuzzySetScore score
                (if length (fst combo) \<le> length (snd combo) then fst combo else snd combo)
                tokens_0)"

definition set_scores :: "fuzz \<Rightarrow> string list \<Rightarrow> FuzzySetScore list" where
  "set_scores fz values = map (set_score fz) (combinations values)"

definition top_token_set_ratio :: "fuzz \<Rightarrow> string list \<Rightarrow> py_error + FuzzySetScore" where
  "top_token_set_ratio fz values =
     index0 (sorted_rev (\<lambda>s. (fss_score s, fss_tokens s, 1000000 - int (length (fss_value s))))
              (set_scores fz values))"

subsection \<open>reconcile\<close>

text \<open>
  Line 20 tests \<open>args.user_weights\<close>, which is a dict: when it is not empty, line 21
  calls its \<open>split\<close>, which a dict does not have, and the call raises AttributeError.
  The variable \<open>top\<close> of the source is \<open>top_r\<close> at its first assignment and \<open>top_s\<close>
  at its second.
\<close>

definition reconcile :: "fuzz \<Rightarrow> group \<Rightarrow> args \<Rightarrow> py_error + (string \<times> string)" where
  "reconcile fz grp args =
     (if user_weights args \<noteq> [] then Inl AttributeError
      else
        (let trustedUserWeights = [];
             values = map (\<lambda>(u, g). convLine g) grp
         in case only_filled_values values of
              Inl e \<Rightarrow> Inl e
            | Inr filled \<Rightarrow>
               (let count = int (length values);
                    blanks = count - sum_list (map (\<lambda>f. int (es_count f)) filled)
                in case filled of
                     [] \<Rightarrow>
                       Inr (P ''The'' count @ '' '' @ str_int count @ '' '' @ P ''record'' count
                              @ '' '' @ P ''is'' count @ '' blank'', [])
                   | f0 # _ \<Rightarrow>
                       if es_count f0 > 1 \<and> int (es_count f0) = count then
                         Inr (''Normalized unanimous match, '' @ str_int (int (es_count f0))
                                @ '' of '' @ str_int count @ '' '' @ P ''record'' count,
                              es_value f0)
                       else if es_count f0 > 1 then
                         Inr (''Normalized majority match, '' @ str_int (int (es_count f0))
                                @ '' of '' @ str_int count @ '' '' @ P ''record'' count
                                @ '' with '' @ str_int blanks @ '' '' @ P ''blank'' blanks,
                              es_value f0)
                       else if length filled = 1 then
                         Inr (''Only 1 transcript in '' @ str_int count @ '' '' @ P ''record'' count,
                              es_value f0)
                       else
                         (case top_partial_ratio fz grp trustedUserWeights of
                            Inl e \<Rightarrow> Inl e
                          | Inr top_r \<Rightarrow>
                             if frs_score top_r \<ge> fuzzy_ratio_threshold args then
                               Inr (''Partial ratio match on '' @ str_int count @ '' ''
                                      @ P ''record'' count @ '' with '' @ str_int blanks @ '' ''
                                      @ P ''blank'' blanks @ '', score='' @ str_int (frs_score top_r),
                                    frs_value top_r)
                             else
                               (case top_token_set_ratio fz values of
                                  Inl e \<Rightarrow> Inl e
                                | Inr top_s \<Rightarrow>
                                   if fss_score top_s \<ge> fuzzy_set_threshold args then
                                     Inr (''Token set ratio match on '' @ str_int count @ '' ''
                                            @ P ''record'' count @ '' with '' @ str_int blanks
                                            @ '' '' @ P ''blank'' blanks @ '', score=''
                                            @ str_int (fss_score top_s),
                                          fss_value top_s)
                                   else
                                     Inr (''No text match on '' @ str_int count @ '' ''
                                            @ P ''record'' count @ '' with '' @ str_int blanks
                                            @ '' '' @ P ''blank'' blanks,
                                          []))))))"

section \<open>Sample configurations\<close>

text \<open>
  The defaults of \<open>parse_command_line\<close>: no user weights, \<open>--fuzzy-ratio-threshold\<close> 90
  and \<open>--fuzzy-set-threshold\<close> 50.
\<close>

definition default_args :: args where
  "default_args = \<lparr>user_weights = [], fuzzy_ratio_threshold = 90, fuzzy_set_threshold = 50\<rparr>"

text \<open>
  A pair of scorers that give every pair of strings the same two scores, to run the
  model on concrete groups.
\<close>

definition const_fuzz :: "int \<Rightarrow> int \<Rightarrow> fuzz" where
  "const_fuzz p t = \<lparr>partial_ratio = (\<lambda>a b. p), token_set_ratio = (\<lambda>a b. t)\<rparr>"

text \<open>
  A pair of scorers that give the two scores to the pairs with an empty member and 0 to
  every other pair, to see which pairs a step scores.
\<close>

definition blank_fuzz :: "int \<Rightarrow> int \<Rightarrow> fuzz" where
  "blank_fuzz p t =
     \<lparr>partial_ratio = (\<lambda>a b. if a = [] \<or> b = [] then p else 0),
      token_set_ratio = (\<lambda>a b. if a = [] \<or> b = [] then t else 0)\<rparr>"

section \<open>The example group of three spellings of Ohio\<close>

text \<open>
  C2, as the source has it. The three entries \<open>Ohio\<close>, \<open>Ohio\<close> and \<open>ohio.\<close> share the key
  \<open>ohio\<close> and form one key-group of three. Its representative is its longest literal
  variant, and that is \<open>ohio.\<close> with five characters, not \<open>Ohio\<close> with four. Under the
  default configuration, for any scorers and any user names, the text strategy returns
  the explanation \<open>Normalized unanimous match, 3 of 3 records\<close> with the value \<open>ohio.\<close>.
\<close>

theorem reconcile_ohio_longest_variant:
  "all_filled_of [''Ohio'', ''Ohio'', ''ohio.''] = [(''ohio'', [''Ohio'', ''Ohio'', ''ohio.''])]
   \<and> only_filled_values [''Ohio'', ''Ohio'', ''ohio.''] = Inr [ExactScore ''ohio.'' 3]
   \<and> reconcile fz [(a, ''Ohio''), (b, ''Ohio''), (c, ''ohio.'')] default_args
       = Inr (''Normalized unanimous match, 3 of 3 records'', ''ohio.'')"
  by code_simp

text \<open>
  C2 as the specification states it, with the value \<open>Ohio\<close>, does not hold.
\<close>

theorem reconcile_ohio_not_first_spelling:
  "reconcile (const_fuzz 0 0) [(''u1'', ''Ohio''), (''u2'', ''Ohio''), (''u3'', ''ohio.'')] default_args
     \<noteq> Inr (''Normalized unanimous match, 3 of 3 records'', ''Ohio'')"
  by code_simp

text \<open>
  The example of the docstring of \<open>only_filled_values\<close>: of the three spellings with the
  key \<open>atestlabel\<close> the second one, the longest, is returned.
\<close>

lemma only_filled_values_docstring:
  "only_filled_values [''A test label'', ''a test label.'', ''A TEST LABEL'']
     = Inr [ExactScore ''a test label.'' 3]"
  by code_simp

section \<open>Facts about the Python strings\<close>

lemma dropWhile_all_iff: "(\<forall>c\<in>set (dropWhile Q s). Q c) \<longleftrightarrow> (\<forall>c\<in>set s. Q c)"
  by (induction s) auto

lemma strip_empty_iff: "strip s = [] \<longleftrightarrow> (\<forall>c\<in>set s. is_space c)"
proof -
  have "strip s = [] \<longleftrightarrow> (\<forall>c\<in>set (rev (dropWhile is_space s)). is_space c)"
    by (simp add: strip_def dropWhile_eq_Nil_conv)
  also have "\<dots> \<longleftrightarrow> (\<forall>c\<in>set s. is_space c)"
    by (simp add: dropWhile_all_iff)
  finally show ?thesis .
qed

lemma split_acc_chars:
  "(\<Union>w\<in>set (split_acc cur s). set w) = set cur \<union> {c \<in> set s. \<not> is_space c}"
  by (induction s arbitrary: cur) auto

lemma split_chars: "(\<Union>w\<in>set (split s). set w) = {c \<in> set s. \<not> is_space c}"
  by (simp add: split_def split_acc_chars)

lemma linebreak_is_space: "is_linebreak c \<Longrightarrow> is_space c"
  by (auto simp: is_linebreak_def is_space_def Let_def)

lemma splitlines_acc_chars:
  "(\<Union>l\<in>set (splitlines_acc cur s). set l) = set cur \<union> {c \<in> set s. \<not> is_linebreak c}"
proof (induction cur s rule: splitlines_acc.induct)
  case (1 cur)
  then show ?case by simp
next
  case (2 cur c cs)
  show ?case
  proof (cases "is_linebreak c")
    case False
    then show ?thesis using 2 by auto
  next
    case lb: True
    show ?thesis
    proof (cases "ord c = 13")
      case False
      then show ?thesis using 2 lb by auto
    next
      case cr: True
      show ?thesis
      proof (cases cs)
        case Nil
        then show ?thesis using lb cr by auto
      next
        case (Cons d ds)
        show ?thesis
        proof (cases "ord d = 10")
          case True
          then have "is_linebreak d" by (simp add: is_linebreak_def)
          then show ?thesis using 2(1) [OF lb cr Cons True] lb cr Cons True by auto
        next
          case False
          then show ?thesis using 2(2) [OF lb cr Cons False] lb cr Cons by auto
        qed
      qed
    qed
  qed
qed

lemma splitlines_chars: "(\<Union>l\<in>set (splitlines s). set l) = {c \<in> set s. \<not> is_linebreak c}"
  by (simp add: splitlines_def splitlines_acc_chars)

lemma set_join_subset: "set (join sep xs) \<subseteq> set sep \<union> (\<Union>x\<in>set xs. set x)"
  by (induction sep xs rule: join.induct) auto

lemma set_join_supset: "(\<Union>x\<in>set xs. set x) \<subseteq> set (join sep xs)"
  by (induction sep xs rule: join.induct) auto

lemma nonspace_join:
  assumes "\<forall>c\<in>set sep. is_space c"
  shows "{c \<in> set (join sep xs). \<not> is_space c} = {c \<in> (\<Union>x\<in>set xs. set x). \<not> is_space c}"
  using assms set_join_subset [of sep xs] set_join_supset [of xs sep] by blast

lemma space_chars: "is_space CHR '' ''" "is_space (CHR 0x0A)"
  by code_simp+

lemma nonspace_convLine: "{c \<in> set (convLine v). \<not> is_space c} = {c \<in> set v. \<not> is_space c}"
proof -
  have line: "{c \<in> set (join '' '' (split ln)). \<not> is_space c} = {c \<in> set ln. \<not> is_space c}" for ln
    using nonspace_join [of "'' ''" "split ln"] split_chars [of ln] by (auto simp: space_chars)
  have "{c \<in> set (convLine v). \<not> is_space c}
        = {c \<in> (\<Union>ln\<in>set (splitlines v). set (join '' '' (split ln))). \<not> is_space c}"
    unfolding convLine_def
    using nonspace_join [of "[CHR 0x0A]" "map (\<lambda>ln. join '' '' (split ln)) (splitlines v)"]
    by (simp add: space_chars)
  also have "\<dots> = (\<Union>ln\<in>set (splitlines v). {c \<in> set (join '' '' (split ln)). \<not> is_space c})"
    by blast
  also have "\<dots> = (\<Union>ln\<in>set (splitlines v). {c \<in> set ln. \<not> is_space c})"
    by (simp only: line)
  also have "\<dots> = {c \<in> (\<Union>ln\<in>set (splitlines v). set ln). \<not> is_space c}"
    by blast
  also have "\<dots> = {c \<in> set v. \<not> is_space c}"
    unfolding splitlines_chars using linebreak_is_space by blast
  finally show ?thesis .
qed

lemma filled_iff: "strip (convLine v) \<noteq> [] \<longleftrightarrow> (\<exists>c\<in>set v. \<not> is_space c)"
proof -
  have "strip (convLine v) \<noteq> [] \<longleftrightarrow> {c \<in> set (convLine v). \<not> is_space c} \<noteq> {}"
    by (auto simp: strip_empty_iff)
  also have "\<dots> \<longleftrightarrow> {c \<in> set v. \<not> is_space c} \<noteq> {}"
    by (simp only: nonspace_convLine)
  also have "\<dots> \<longleftrightarrow> (\<exists>c\<in>set v. \<not> is_space c)"
    by auto
  finally show ?thesis .
qed

section \<open>Facts about the Python containers\<close>

lemma index0_Inr: "xs \<noteq> [] \<Longrightarrow> index0 xs = Inr (hd xs)"
  by (cases xs) simp_all

lemma index0_Inr_iff: "index0 xs = Inr x \<longleftrightarrow> xs \<noteq> [] \<and> hd xs = x"
  by (cases xs) simp_all

lemma length_sorted_rev: "length (sorted_rev key xs) = length xs"
  by (simp add: sorted_rev_def)

lemma set_sorted_rev: "set (sorted_rev key xs) = set xs"
  by (simp add: sorted_rev_def)

lemma sorted_rev_Nil_iff: "sorted_rev key xs = [] \<longleftrightarrow> xs = []"
  using length_sorted_rev [of key xs] by (metis length_0_conv)

lemma sorted_last_max:
  assumes "sorted (map key ys)" and "y \<in> set ys"
  shows "key y \<le> key (last ys)"
proof -
  from assms(2) obtain i where i: "i < length ys" "ys ! i = y"
    by (auto simp: in_set_conv_nth)
  then have ne: "ys \<noteq> []" by auto
  have "map key ys ! i \<le> map key ys ! (length ys - 1)"
    using assms(1) i(1) by (intro sorted_nth_mono) auto
  then show ?thesis
    using i ne by (simp add: last_conv_nth)
qed

lemma hd_sorted_rev_max:
  assumes "x \<in> set xs"
  shows "key x \<le> key (hd (sorted_rev key xs))"
proof -
  let ?ys = "sort_key key (rev xs)"
  have ne: "?ys \<noteq> []" using assms by (metis empty_iff empty_set set_rev set_sort)
  have "key x \<le> key (last ?ys)"
    using assms by (intro sorted_last_max) simp_all
  then show ?thesis
    using ne by (simp add: sorted_rev_def hd_rev)
qed

lemma hd_sorted_rev_in: "xs \<noteq> [] \<Longrightarrow> hd (sorted_rev key xs) \<in> set xs"
  by (metis hd_in_set set_sorted_rev sorted_rev_Nil_iff)

lemma first_filter_index:
  "filter Q xs \<noteq> [] \<Longrightarrow> \<exists>i<length xs. xs ! i = hd (filter Q xs) \<and> (\<forall>j<i. \<not> Q (xs ! j))"
proof (induction xs)
  case Nil
  then show ?case by simp
next
  case (Cons x xs)
  show ?case
  proof (cases "Q x")
    case True
    then have "0 < length (x # xs) \<and> (x # xs) ! 0 = hd (filter Q (x # xs)) \<and> (\<forall>j<0. \<not> Q ((x # xs) ! j))"
      by simp
    then show ?thesis by blast
  next
    case False
    with Cons.prems have "filter Q xs \<noteq> []" by simp
    then obtain i where i: "i < length xs" "xs ! i = hd (filter Q xs)" "\<forall>j<i. \<not> Q (xs ! j)"
      using Cons.IH by blast
    have "\<forall>j<Suc i. \<not> Q ((x # xs) ! j)"
    proof (intro allI impI)
      fix j assume "j < Suc i"
      then show "\<not> Q ((x # xs) ! j)" using False i(3) by (cases j) auto
    qed
    with i False have "Suc i < length (x # xs) \<and> (x # xs) ! Suc i = hd (filter Q (x # xs))
        \<and> (\<forall>j<Suc i. \<not> Q ((x # xs) ! j))"
      by simp
    then show ?thesis by blast
  qed
qed

lemma last_filter_same: "xs \<noteq> [] \<Longrightarrow> Q (last xs) \<Longrightarrow> last (filter Q xs) = last xs"
  by (induction xs) (auto simp: filter_empty_conv)

lemma hd_sorted_rev_first:
  assumes "xs \<noteq> []"
  shows "hd (sorted_rev key xs) = hd (filter (\<lambda>y. key y = key (hd (sorted_rev key xs))) xs)"
proof -
  let ?S = "sort_key key (rev xs)"
  let ?t = "last ?S"
  have ne: "?S \<noteq> []" using assms by (metis length_0_conv length_rev length_sort)
  have t: "hd (sorted_rev key xs) = ?t" using ne by (simp add: sorted_rev_def hd_rev)
  have "?t = last (filter (\<lambda>y. key y = key ?t) ?S)"
    using ne by (simp add: last_filter_same)
  also have "\<dots> = last (filter (\<lambda>y. key y = key ?t) (rev xs))"
    by (simp only: sort_key_stable)
  also have "\<dots> = hd (filter (\<lambda>y. key y = key ?t) xs)"
    by (simp add: rev_filter [symmetric] last_rev)
  finally show ?thesis using t by simp
qed

lemma hd_sorted_rev_index:
  assumes "xs \<noteq> []"
  shows "\<exists>i<length xs. xs ! i = hd (sorted_rev key xs)
           \<and> (\<forall>j<i. key (xs ! j) < key (hd (sorted_rev key xs)))"
proof -
  let ?t = "hd (sorted_rev key xs)"
  have "?t \<in> set xs" using assms by (rule hd_sorted_rev_in)
  then have "filter (\<lambda>y. key y = key ?t) xs \<noteq> []"
    by (auto simp: filter_empty_conv)
  then obtain i where i: "i < length xs" "xs ! i = hd (filter (\<lambda>y. key y = key ?t) xs)"
      "\<forall>j<i. key (xs ! j) \<noteq> key ?t"
    using first_filter_index [of "\<lambda>y. key y = key ?t" xs] by blast
  have "key (xs ! j) < key ?t" if "j < i" for j
  proof -
    have "xs ! j \<in> set xs" using that i(1) by simp
    then have "key (xs ! j) \<le> key ?t" by (rule hd_sorted_rev_max)
    moreover have "key (xs ! j) \<noteq> key ?t" using that i(3) by blast
    ultimately show ?thesis by simp
  qed
  moreover have "xs ! i = ?t" using i(2) hd_sorted_rev_first [OF assms, of key] by simp
  ultimately show ?thesis using i(1) by blast
qed

lemma combinations_nonempty: "2 \<le> length xs \<Longrightarrow> combinations xs \<noteq> []"
  by (cases xs rule: combinations.cases) (auto simp: Suc_le_eq)

lemma set_combinations:
  "(a, b) \<in> set (combinations xs) \<longleftrightarrow> (\<exists>i j. i < j \<and> j < length xs \<and> a = xs ! i \<and> b = xs ! j)"
proof (induction xs)
  case Nil
  then show ?case by simp
next
  case (Cons x xs)
  show ?case (is "?L = ?R")
  proof
    assume ?L
    then consider "a = x" "b \<in> set xs" | "(a, b) \<in> set (combinations xs)" by auto
    then show ?R
    proof cases
      case 1
      then obtain j where "j < length xs" "xs ! j = b" by (auto simp: in_set_conv_nth)
      then have "0 < Suc j \<and> Suc j < length (x # xs) \<and> a = (x # xs) ! 0 \<and> b = (x # xs) ! Suc j"
        using 1 by simp
      then show ?thesis by blast
    next
      case 2
      then obtain i j where "i < j" "j < length xs" "a = xs ! i" "b = xs ! j"
        using Cons.IH by blast
      then have "Suc i < Suc j \<and> Suc j < length (x # xs) \<and> a = (x # xs) ! Suc i \<and> b = (x # xs) ! Suc j"
        by simp
      then show ?thesis by blast
    qed
  next
    assume ?R
    then obtain i j where ij: "i < j" "j < length (x # xs)" "a = (x # xs) ! i" "b = (x # xs) ! j"
      by blast
    then obtain j' where j': "j = Suc j'" by (cases j) auto
    show ?L
    proof (cases i)
      case 0
      then show ?thesis using ij j' by auto
    next
      case (Suc i')
      then have "i' < j' \<and> j' < length xs \<and> a = xs ! i' \<and> b = xs ! j'"
        using ij j' by simp
      then have "(a, b) \<in> set (combinations xs)" using Cons.IH by blast
      then show ?thesis by simp
    qed
  qed
qed

lemma dict_set_keys:
  "map fst (dict_set d k v) = (if k \<in> fst ` set d then map fst d else map fst d @ [k])"
proof (induction d)
  case Nil
  then show ?case by simp
next
  case (Cons p d)
  then show ?case by (cases p) (auto simp: image_iff)
qed

lemma distinct_dict_set: "distinct (map fst d) \<Longrightarrow> distinct (map fst (dict_set d k v))"
  by (simp add: dict_set_keys) 


lemma length_dict_set: "length (dict_set d k v) \<le> Suc (length d)"
  by (induction d) auto


lemma set_dict_set: "set (dict_set d k v) \<subseteq> insert (k, v) (set d)"
  by (induction d) (auto split: if_splits)

lemma dict_set_nonempty: "dict_set d k v \<noteq> []"
  by (cases d) (auto split: if_splits)

lemma add_filled_vals:
  assumes "\<forall>p\<in>set d. snd p \<noteq> []"
  shows "\<forall>p\<in>set (add_filled d v). snd p \<noteq> []"
proof (cases "strip v = []")
  case True
  then show ?thesis using assms by (simp add: add_filled_def)
next
  case False
  have "set (add_filled d v) \<subseteq>
          insert (lower (sub_nonword (strip v)),
                  (case map_of d (lower (sub_nonword (strip v))) of None \<Rightarrow> [] | Some vs \<Rightarrow> vs) @ [strip v])
            (set d)"
    using False set_dict_set by (simp add: add_filled_def Let_def)
  then show ?thesis using assms by auto
qed

lemma add_filled_distinct: "distinct (map fst d) \<Longrightarrow> distinct (map fst (add_filled d v))"
  by (simp add: add_filled_def Let_def distinct_dict_set)

lemma add_filled_length: "length (add_filled d v) \<le> Suc (length d)"
  using length_dict_set [of d] by (simp add: add_filled_def Let_def)

lemma foldl_add_filled_vals:
  "\<forall>p\<in>set d. snd p \<noteq> [] \<Longrightarrow> \<forall>p\<in>set (foldl add_filled d vs). snd p \<noteq> []"
proof (induction vs arbitrary: d)
  case Nil
  then show ?case by simp
next
  case (Cons v vs)
  have "\<forall>p\<in>set (add_filled d v). snd p \<noteq> []"
    using Cons.prems by (rule add_filled_vals)
  then show ?case using Cons.IH by simp
qed

lemma foldl_add_filled_distinct:
  "distinct (map fst d) \<Longrightarrow> distinct (map fst (foldl add_filled d vs))"
proof (induction vs arbitrary: d)
  case Nil
  then show ?case by simp
next
  case (Cons v vs)
  have "distinct (map fst (add_filled d v))"
    using Cons.prems by (rule add_filled_distinct)
  then show ?case using Cons.IH by simp
qed

lemma foldl_add_filled_length: "length (foldl add_filled d vs) \<le> length d + length vs"
proof (induction vs arbitrary: d)
  case Nil
  then show ?case by simp
next
  case (Cons v vs)
  have "length (foldl add_filled (add_filled d v) vs) \<le> length (add_filled d v) + length vs"
    by (rule Cons.IH)
  also have "\<dots> \<le> Suc (length d) + length vs"
    using add_filled_length [of d v] by simp
  finally show ?case by simp
qed

lemma all_filled_vals: "\<forall>p\<in>set (all_filled_of vs). snd p \<noteq> []"
  unfolding all_filled_of_def by (rule foldl_add_filled_vals) simp

lemma all_filled_distinct: "distinct (map fst (all_filled_of vs))"
  unfolding all_filled_of_def by (rule foldl_add_filled_distinct) simp

lemma all_filled_length: "length (all_filled_of vs) \<le> length vs"
  unfolding all_filled_of_def using foldl_add_filled_length [of "[]" vs] by simp

lemma longest_each_Inr:
  "\<forall>p\<in>set d. snd p \<noteq> [] \<Longrightarrow>
   longest_each d = Inr (map (\<lambda>p. ExactScore (hd (sorted_rev length (snd p))) (length (snd p))) d)"
proof (induction d)
  case Nil
  then show ?case by simp
next
  case (Cons p d)
  obtain k vals where p: "p = (k, vals)" by (cases p)
  have "vals \<noteq> []" using Cons.prems p by simp
  then have "index0 (sorted_rev length vals) = Inr (hd (sorted_rev length vals))"
    by (simp add: index0_Inr sorted_rev_Nil_iff)
  then show ?case using Cons p by simp
qed

lemma only_filled_values_Inr:
  "only_filled_values vs =
     Inr (sorted_rev es_count
            (map (\<lambda>p. ExactScore (hd (sorted_rev length (snd p))) (length (snd p))) (all_filled_of vs)))"
  by (simp add: only_filled_values_def longest_each_Inr all_filled_vals)

lemma only_filled_values_length:
  "only_filled_values vs = Inr filled \<Longrightarrow> length filled = length (all_filled_of vs)"
  by (auto simp: only_filled_values_Inr length_sorted_rev)


lemma snd_indexed_values:
  "map snd (map (\<lambda>(u, line). (u, convLine line)) grp) = map (\<lambda>(u, g). convLine g) grp"
  by (induction grp) auto

lemma ratio_scores_eq:
  "ratio_scores fz grp w =
     map (ratio_score fz (userAttribution_of (map (\<lambda>(u, line). (u, convLine line)) grp)) w)
       (combinations (map (\<lambda>(u, g). convLine g) grp))"
  unfolding ratio_scores_def Let_def snd_indexed_values ..

lemma ratio_scores_length:
  "length (ratio_scores fz grp w) = length (combinations (map (\<lambda>(u, g). convLine g) grp))"
  by (simp add: ratio_scores_eq)

lemma ratio_scores_nonempty: "2 \<le> length grp \<Longrightarrow> ratio_scores fz grp w \<noteq> []"
  using combinations_nonempty [of "map (\<lambda>(u, g). convLine g) grp"] ratio_scores_length [of fz grp w]
  by (metis length_0_conv length_map)

lemma set_scores_nonempty: "2 \<le> length vs \<Longrightarrow> set_scores fz vs \<noteq> []"
  by (simp add: set_scores_def combinations_nonempty)

lemma top_partial_ratio_Inr:
  "2 \<le> length grp \<Longrightarrow> \<exists>t. top_partial_ratio fz grp w = Inr t"
  by (simp add: top_partial_ratio_def index0_Inr_iff sorted_rev_Nil_iff ratio_scores_nonempty)

lemma top_token_set_ratio_Inr:
  "2 \<le> length vs \<Longrightarrow> \<exists>t. top_token_set_ratio fz vs = Inr t"
  by (simp add: top_token_set_ratio_def index0_Inr_iff sorted_rev_Nil_iff set_scores_nonempty)

lemma several_key_groups:
  assumes "only_filled_values vs = Inr filled" and "filled \<noteq> []" and "length filled \<noteq> 1"
  shows "2 \<le> length (all_filled_of vs)" and "2 \<le> length vs"
proof -
  have "length filled = length (all_filled_of vs)"
    using assms(1) by (rule only_filled_values_length)
  moreover have "2 \<le> length filled"
    using assms(2,3) by (cases filled) (auto simp: Suc_le_eq)
  ultimately show "2 \<le> length (all_filled_of vs)" by simp
  then show "2 \<le> length vs" using all_filled_length [of vs] by simp
qed

section \<open>Reaching the pairwise steps\<close>

text \<open>
  C10. When the ladder of \<open>reconcile\<close> passes its four terminal branches (the list
  \<open>filled\<close> is not empty, its first count is not above 1, and it has not exactly one
  element), the dict \<open>all_filled\<close> holds at least two distinct keys, the group has at
  least two entries, both pairwise loops append at least one score, and
  \<open>top_partial_ratio\<close> and \<open>top_token_set_ratio\<close> return their first sorted score
  instead of raising IndexError.
\<close>

theorem step7_has_pairs:
  assumes "only_filled_values (map (\<lambda>(u, g). convLine g) grp) = Inr filled"
    and "filled \<noteq> []"
    and "\<not> 1 < es_count (hd filled)"
    and "length filled \<noteq> 1"
  shows "2 \<le> length (all_filled_of (map (\<lambda>(u, g). convLine g) grp))
       \<and> distinct (map fst (all_filled_of (map (\<lambda>(u, g). convLine g) grp)))
       \<and> 2 \<le> length grp
       \<and> ratio_scores fz grp w \<noteq> []
       \<and> set_scores fz (map (\<lambda>(u, g). convLine g) grp) \<noteq> []
       \<and> (\<exists>t. top_partial_ratio fz grp w = Inr t)
       \<and> (\<exists>t. top_token_set_ratio fz (map (\<lambda>(u, g). convLine g) grp) = Inr t)"
proof -
  let ?vs = "map (\<lambda>(u, g). convLine g) grp"
  have a: "2 \<le> length (all_filled_of ?vs)" and b: "2 \<le> length ?vs"
    using several_key_groups [OF assms(1,2,4)] by simp_all
  from b have c: "2 \<le> length grp" by simp
  show ?thesis
    using a b c all_filled_distinct [of ?vs] ratio_scores_nonempty [OF c]
      set_scores_nonempty [OF b] top_partial_ratio_Inr [OF c] top_token_set_ratio_Inr [OF b]
    by blast
qed

theorem step7_has_pairs_witness:
  "only_filled_values (map (\<lambda>(u, g). convLine g) [(''a'', ''New York''), (''b'', ''New York City'')])
     = Inr [ExactScore ''New York'' 1, ExactScore ''New York City'' 1]
   \<and> (\<exists>t. top_partial_ratio (const_fuzz 80 40) [(''a'', ''New York''), (''b'', ''New York City'')] [] = Inr t)
   \<and> (\<exists>t. top_token_set_ratio (const_fuzz 80 40)
              (map (\<lambda>(u, g). convLine g) [(''a'', ''New York''), (''b'', ''New York City'')]) = Inr t)"
proof -
  have h1: "only_filled_values (map (\<lambda>(u, g). convLine g) [(''a'', ''New York''), (''b'', ''New York City'')])
     = Inr [ExactScore ''New York'' 1, ExactScore ''New York City'' 1]"
    by code_simp
  have h2: "[ExactScore ''New York'' 1, ExactScore ''New York City'' 1] \<noteq> []" by simp
  have h3: "\<not> 1 < es_count (hd [ExactScore ''New York'' 1, ExactScore ''New York City'' 1])" by simp
  have h4: "length [ExactScore ''New York'' 1, ExactScore ''New York City'' 1] \<noteq> 1" by simp
  show ?thesis
    using h1 step7_has_pairs [OF h1 h2 h3 h4, of "const_fuzz 80 40" "[]"] by blast
qed

section \<open>The token-set step\<close>

lemma top_token_set_ratio_max:
  assumes "top_token_set_ratio fz vs = Inr t" and "s \<in> set (set_scores fz vs)"
  shows "(fss_score s, fss_tokens s, 1000000 - int (length (fss_value s)))
           \<le> (fss_score t, fss_tokens t, 1000000 - int (length (fss_value t)))"
proof -
  let ?key = "\<lambda>s. (fss_score s, fss_tokens s, 1000000 - int (length (fss_value s)))"
  have "hd (sorted_rev ?key (set_scores fz vs)) = t"
    using assms(1) by (simp add: top_token_set_ratio_def index0_Inr_iff)
  then show ?thesis
    using hd_sorted_rev_max [OF assms(2), of ?key] by simp
qed

lemma top_token_set_ratio_in:
  assumes "top_token_set_ratio fz vs = Inr t"
  shows "t \<in> set (set_scores fz vs)"
  using assms hd_sorted_rev_in [of "set_scores fz vs"]
  by (auto simp: top_token_set_ratio_def index0_Inr_iff sorted_rev_Nil_iff)

lemma top_token_set_ratio_first:
  assumes "top_token_set_ratio fz vs = Inr t"
  shows "\<exists>i<length (set_scores fz vs). set_scores fz vs ! i = t
           \<and> (\<forall>j<i. (fss_score (set_scores fz vs ! j), fss_tokens (set_scores fz vs ! j),
                        1000000 - int (length (fss_value (set_scores fz vs ! j))))
                     < (fss_score t, fss_tokens t, 1000000 - int (length (fss_value t))))"
proof -
  let ?key = "\<lambda>s. (fss_score s, fss_tokens s, 1000000 - int (length (fss_value s)))"
  have ne: "set_scores fz vs \<noteq> []"
    using assms by (auto simp: top_token_set_ratio_def index0_Inr_iff sorted_rev_Nil_iff)
  have t: "hd (sorted_rev ?key (set_scores fz vs)) = t"
    using assms by (simp add: top_token_set_ratio_def index0_Inr_iff)
  show ?thesis
    using hd_sorted_rev_index [OF ne, of ?key] unfolding t by simp
qed

text \<open>
  C7. In \<open>top_token_set_ratio\<close> the candidate of a pair is the member with more
  whitespace-separated tokens; with equally many tokens it is the member with fewer
  characters, and with equally many characters the first member of the pair. Its token
  count is the larger of the two and its score is the token-set ratio of the pair. The
  score that \<open>top_token_set_ratio\<close> returns is one of the scored pairs, and no scored
  pair ranks above it: every other one has a smaller score, or the same score and fewer
  tokens, or the same score and tokens and a value at least as long. Every pair
  enumerated before it ranks strictly below it: among the pairs of the highest rank the
  first one wins.
\<close>

theorem token_set_candidate_and_winner:
  "(length (split b) < length (split a) \<longrightarrow> fss_value (set_score fz (a, b)) = a)
   \<and> (length (split a) < length (split b) \<longrightarrow> fss_value (set_score fz (a, b)) = b)
   \<and> (length (split a) = length (split b) \<and> length a < length b \<longrightarrow> fss_value (set_score fz (a, b)) = a)
   \<and> (length (split a) = length (split b) \<and> length b < length a \<longrightarrow> fss_value (set_score fz (a, b)) = b)
   \<and> (length (split a) = length (split b) \<and> length a = length b \<longrightarrow> fss_value (set_score fz (a, b)) = a)
   \<and> fss_tokens (set_score fz (a, b)) = max (length (split a)) (length (split b))
   \<and> fss_score (set_score fz (a, b)) = token_set_ratio fz a b
   \<and> (top_token_set_ratio fz vs = Inr t \<longrightarrow>
        t \<in> set (set_scores fz vs)
        \<and> (\<forall>s \<in> set (set_scores fz vs).
              fss_score s < fss_score t
              \<or> (fss_score s = fss_score t
                  \<and> (fss_tokens s < fss_tokens t
                      \<or> (fss_tokens s = fss_tokens t \<and> length (fss_value t) \<le> length (fss_value s)))))
        \<and> (\<exists>i<length (set_scores fz vs). set_scores fz vs ! i = t
              \<and> (\<forall>j<i. fss_score (set_scores fz vs ! j) < fss_score t
                    \<or> (fss_score (set_scores fz vs ! j) = fss_score t
                        \<and> (fss_tokens (set_scores fz vs ! j) < fss_tokens t
                            \<or> (fss_tokens (set_scores fz vs ! j) = fss_tokens t
                                \<and> length (fss_value t) < length (fss_value (set_scores fz vs ! j))))))))"
proof -
  have cand: "(length (split b) < length (split a) \<longrightarrow> fss_value (set_score fz (a, b)) = a)
   \<and> (length (split a) < length (split b) \<longrightarrow> fss_value (set_score fz (a, b)) = b)
   \<and> (length (split a) = length (split b) \<and> length a < length b \<longrightarrow> fss_value (set_score fz (a, b)) = a)
   \<and> (length (split a) = length (split b) \<and> length b < length a \<longrightarrow> fss_value (set_score fz (a, b)) = b)
   \<and> (length (split a) = length (split b) \<and> length a = length b \<longrightarrow> fss_value (set_score fz (a, b)) = a)
   \<and> fss_tokens (set_score fz (a, b)) = max (length (split a)) (length (split b))
   \<and> fss_score (set_score fz (a, b)) = token_set_ratio fz a b"
    by (simp add: set_score_def Let_def)
  have win: "top_token_set_ratio fz vs = Inr t \<longrightarrow>
        t \<in> set (set_scores fz vs)
        \<and> (\<forall>s \<in> set (set_scores fz vs).
              fss_score s < fss_score t
              \<or> (fss_score s = fss_score t
                  \<and> (fss_tokens s < fss_tokens t
                      \<or> (fss_tokens s = fss_tokens t \<and> length (fss_value t) \<le> length (fss_value s)))))
        \<and> (\<exists>i<length (set_scores fz vs). set_scores fz vs ! i = t
              \<and> (\<forall>j<i. fss_score (set_scores fz vs ! j) < fss_score t
                    \<or> (fss_score (set_scores fz vs ! j) = fss_score t
                        \<and> (fss_tokens (set_scores fz vs ! j) < fss_tokens t
                            \<or> (fss_tokens (set_scores fz vs ! j) = fss_tokens t
                                \<and> length (fss_value t) < length (fss_value (set_scores fz vs ! j)))))))"
  proof (intro impI conjI ballI)
    assume t: "top_token_set_ratio fz vs = Inr t"
    then show "t \<in> set (set_scores fz vs)" by (rule top_token_set_ratio_in)
    fix s assume "s \<in> set (set_scores fz vs)"
    with t have "(fss_score s, fss_tokens s, 1000000 - int (length (fss_value s)))
           \<le> (fss_score t, fss_tokens t, 1000000 - int (length (fss_value t)))"
      by (rule top_token_set_ratio_max)
    then show "fss_score s < fss_score t
              \<or> (fss_score s = fss_score t
                  \<and> (fss_tokens s < fss_tokens t
                      \<or> (fss_tokens s = fss_tokens t \<and> length (fss_value t) \<le> length (fss_value s))))"
      by auto
  next
    assume t: "top_token_set_ratio fz vs = Inr t"
    obtain i where i: "i < length (set_scores fz vs)" "set_scores fz vs ! i = t"
      and below: "\<forall>j<i. (fss_score (set_scores fz vs ! j), fss_tokens (set_scores fz vs ! j),
                        1000000 - int (length (fss_value (set_scores fz vs ! j))))
                     < (fss_score t, fss_tokens t, 1000000 - int (length (fss_value t)))"
      using top_token_set_ratio_first [OF t] by blast
    have "\<forall>j<i. fss_score (set_scores fz vs ! j) < fss_score t
                    \<or> (fss_score (set_scores fz vs ! j) = fss_score t
                        \<and> (fss_tokens (set_scores fz vs ! j) < fss_tokens t
                            \<or> (fss_tokens (set_scores fz vs ! j) = fss_tokens t
                                \<and> length (fss_value t) < length (fss_value (set_scores fz vs ! j)))))"
      using below by auto
    with i show "\<exists>i<length (set_scores fz vs). set_scores fz vs ! i = t
              \<and> (\<forall>j<i. fss_score (set_scores fz vs ! j) < fss_score t
                    \<or> (fss_score (set_scores fz vs ! j) = fss_score t
                        \<and> (fss_tokens (set_scores fz vs ! j) < fss_tokens t
                            \<or> (fss_tokens (set_scores fz vs ! j) = fss_tokens t
                                \<and> length (fss_value t) < length (fss_value (set_scores fz vs ! j))))))"
      by blast
  qed
  from cand win show ?thesis by blast
qed


theorem token_set_candidate_and_winner_witness:
  "fss_value (set_score (const_fuzz 80 40) (''a b c'', ''c b'')) = ''a b c''
   \<and> fss_value (set_score (const_fuzz 80 40) (''c b'', ''a b c'')) = ''a b c''
   \<and> fss_value (set_score (const_fuzz 80 40) (''a b'', ''ab c'')) = ''a b''
   \<and> fss_value (set_score (const_fuzz 80 40) (''ab c'', ''a b'')) = ''a b''
   \<and> fss_value (set_score (const_fuzz 80 40) (''a b'', ''b a'')) = ''a b''
   \<and> top_token_set_ratio (const_fuzz 80 40) [''a b'', ''ab c'', ''d e f g'']
         = Inr (FuzzySetScore 40 ''d e f g'' 4)
   \<and> FuzzySetScore 40 ''d e f g'' 4 \<in> set (set_scores (const_fuzz 80 40) [''a b'', ''ab c'', ''d e f g''])"
proof -
  have t1: "length (split ''c b'') < length (split ''a b c'')" by code_simp
  have t2: "length (split ''a b'') = length (split ''ab c'') \<and> length ''a b'' < length ''ab c''"
    by code_simp
  have t3: "length (split ''a b'') = length (split ''b a'') \<and> length ''a b'' = length ''b a''"
    by code_simp
  have t4: "top_token_set_ratio (const_fuzz 80 40) [''a b'', ''ab c'', ''d e f g'']
         = Inr (FuzzySetScore 40 ''d e f g'' 4)"
    by code_simp
  have c1: "fss_value (set_score (const_fuzz 80 40) (''a b c'', ''c b'')) = ''a b c''"
    using t1 token_set_candidate_and_winner [where a = "''a b c''" and b = "''c b''"] by blast
  have c2: "fss_value (set_score (const_fuzz 80 40) (''c b'', ''a b c'')) = ''a b c''"
    using t1 token_set_candidate_and_winner [where a = "''c b''" and b = "''a b c''"] by blast
  have c3: "fss_value (set_score (const_fuzz 80 40) (''a b'', ''ab c'')) = ''a b''"
    using t2 token_set_candidate_and_winner [where a = "''a b''" and b = "''ab c''"] by blast
  have c4: "fss_value (set_score (const_fuzz 80 40) (''ab c'', ''a b'')) = ''a b''"
    using t2 token_set_candidate_and_winner [where a = "''ab c''" and b = "''a b''"] by metis
  have c5: "fss_value (set_score (const_fuzz 80 40) (''a b'', ''b a'')) = ''a b''"
    using t3 token_set_candidate_and_winner [where a = "''a b''" and b = "''b a''"] by blast
  have c6: "FuzzySetScore 40 ''d e f g'' 4 \<in> set (set_scores (const_fuzz 80 40) [''a b'', ''ab c'', ''d e f g''])"
    using t4 token_set_candidate_and_winner
      [where fz = "const_fuzz 80 40" and vs = "[''a b'', ''ab c'', ''d e f g'']"
         and t = "FuzzySetScore 40 ''d e f g'' 4"]
    by blast
  from c1 c2 c3 c4 c5 c6 t4 show ?thesis by blast
qed

section \<open>The weighted partial-ratio step\<close>



















section \<open>The decision ladder\<close>

lemma reconcile_raises:
  "user_weights args \<noteq> [] \<Longrightarrow> reconcile fz grp args = Inl AttributeError"
  by (simp add: reconcile_def)

lemma reconcile_pairwise_steps:
  assumes "user_weights args = []"
    and "only_filled_values (map (\<lambda>(u, g). convLine g) grp) = Inr filled"
    and "filled \<noteq> []"
    and "\<not> 1 < es_count (hd filled)"
    and "length filled \<noteq> 1"
  shows "reconcile fz grp args =
     (case top_partial_ratio fz grp [] of
        Inl e \<Rightarrow> Inl e
      | Inr top_r \<Rightarrow>
         if frs_score top_r \<ge> fuzzy_ratio_threshold args then
           Inr (''Partial ratio match on '' @ str_int (int (length grp)) @ '' ''
                  @ P ''record'' (int (length grp)) @ '' with ''
                  @ str_int (int (length grp) - sum_list (map (\<lambda>f. int (es_count f)) filled)) @ '' ''
                  @ P ''blank'' (int (length grp) - sum_list (map (\<lambda>f. int (es_count f)) filled))
                  @ '', score='' @ str_int (frs_score top_r),
                frs_value top_r)
         else
           (case top_token_set_ratio fz (map (\<lambda>(u, g). convLine g) grp) of
              Inl e \<Rightarrow> Inl e
            | Inr top_s \<Rightarrow>
               if fss_score top_s \<ge> fuzzy_set_threshold args then
                 Inr (''Token set ratio match on '' @ str_int (int (length grp)) @ '' ''
                        @ P ''record'' (int (length grp)) @ '' with ''
                        @ str_int (int (length grp) - sum_list (map (\<lambda>f. int (es_count f)) filled))
                        @ '' ''
                        @ P ''blank'' (int (length grp) - sum_list (map (\<lambda>f. int (es_count f)) filled))
                        @ '', score='' @ str_int (fss_score top_s),
                      fss_value top_s)
               else
                 Inr (''No text match on '' @ str_int (int (length grp)) @ '' ''
                        @ P ''record'' (int (length grp)) @ '' with ''
                        @ str_int (int (length grp) - sum_list (map (\<lambda>f. int (es_count f)) filled))
                        @ '' ''
                        @ P ''blank'' (int (length grp) - sum_list (map (\<lambda>f. int (es_count f)) filled)),
                      [])))"
proof -
  obtain f0 rest where f: "filled = f0 # rest" using assms(3) by (cases filled) auto
  from assms(4,5) f have c: "\<not> 1 < es_count f0" "rest \<noteq> []" by auto
  show ?thesis
    unfolding reconcile_def using assms(1,2) f c by (simp add: Let_def split: sum.split)
qed

lemma reconcile_returns:
  assumes "user_weights args = []"
  shows "\<exists>e v. reconcile fz grp args = Inr (e, v)"
proof -
  let ?vs = "map (\<lambda>(u, g). convLine g) grp"
  obtain filled where filled: "only_filled_values ?vs = Inr filled"
    by (simp add: only_filled_values_Inr)
  show ?thesis
  proof (cases "filled = [] \<or> 1 < es_count (hd filled) \<or> length filled = 1")
    case True
    then show ?thesis
      unfolding reconcile_def using assms filled
      by (cases filled) (auto simp: Let_def)
  next
    case False
    then have c: "filled \<noteq> []" "\<not> 1 < es_count (hd filled)" "length filled \<noteq> 1" by auto
    have "2 \<le> length ?vs" using several_key_groups(2) [OF filled c(1,3)] .
    then have l: "2 \<le> length grp" by simp
    obtain top_r where r: "top_partial_ratio fz grp [] = Inr top_r"
      using top_partial_ratio_Inr [OF l] by blast
    obtain top_s where s: "top_token_set_ratio fz ?vs = Inr top_s"
      using top_token_set_ratio_Inr [of ?vs] l by auto
    show ?thesis
      unfolding reconcile_pairwise_steps [OF assms filled c] r s by simp
  qed
qed

lemma add_filled_blank: "\<forall>c\<in>set v. is_space c \<Longrightarrow> add_filled d v = d"
  by (simp add: add_filled_def strip_empty_iff)

lemma all_filled_blank:
  "\<forall>v\<in>set vs. \<forall>c\<in>set v. is_space c \<Longrightarrow> foldl add_filled d vs = d"
  by (induction vs arbitrary: d) (simp_all add: add_filled_blank)

lemma reconcile_all_blank:
  assumes "user_weights args = []" and "\<forall>(u, g)\<in>set grp. \<forall>c\<in>set g. is_space c"
  shows "reconcile fz grp args =
           Inr (P ''The'' (int (length grp)) @ '' '' @ str_int (int (length grp)) @ '' ''
                  @ P ''record'' (int (length grp)) @ '' '' @ P ''is'' (int (length grp)) @ '' blank'',
                [])"
proof -
  have "\<forall>v\<in>set (map (\<lambda>(u, g). convLine g) grp). \<forall>c\<in>set v. is_space c"
  proof (intro ballI)
    fix v c
    assume "v \<in> set (map (\<lambda>(u, g). convLine g) grp)" and c: "c \<in> set v"
    then obtain u g where g: "(u, g) \<in> set grp" "v = convLine g" by auto
    then have "\<not> (\<exists>c\<in>set g. \<not> is_space c)" using assms(2) by auto
    then have "strip (convLine g) = []" using filled_iff [of g] by blast
    then show "is_space c" using c g(2) by (simp add: strip_empty_iff)
  qed
  then have "all_filled_of (map (\<lambda>(u, g). convLine g) grp) = []"
    unfolding all_filled_of_def by (rule all_filled_blank)
  then have "only_filled_values (map (\<lambda>(u, g). convLine g) grp) = Inr []"
    by (simp add: only_filled_values_def sorted_rev_def)
  then show ?thesis
    unfolding reconcile_def using assms(1) by (simp add: Let_def)
qed

text \<open>
  C1, at a configuration with one user weight. \<open>parse_command_line\<close> has stored the
  weights as a dict, \<open>reconcile\<close> takes them for the string of the command line and
  raises AttributeError before it reads the group, for a filled group and for a blank
  one alike. With a configuration without weights \<open>reconcile\<close> does return one pair of
  an explanation and a value for every group (lemma \<open>reconcile_returns\<close>), and for a
  group of blank entries the pair of the blank explanation and the empty value (lemma
  \<open>reconcile_all_blank\<close>).
\<close>

theorem reconcile_user_weights_raise:
  "reconcile (const_fuzz 0 0) [(''u1'', ''Ohio'')]
     \<lparr>user_weights = [(''asmith'', 10)], fuzzy_ratio_threshold = 90, fuzzy_set_threshold = 50\<rparr>
     = Inl AttributeError
   \<and> reconcile (const_fuzz 0 0) [(''u1'', []), (''u2'', '' '')]
       \<lparr>user_weights = [(''asmith'', 10)], fuzzy_ratio_threshold = 90, fuzzy_set_threshold = 50\<rparr>
       = Inl AttributeError"
  by code_simp

section \<open>The thresholds\<close>

text \<open>
  C6. Let \<open>reconcile\<close> reach the pairwise steps with no user weights, and let \<open>top_r\<close>
  and \<open>top_s\<close> be the results of \<open>top_partial_ratio\<close> and \<open>top_token_set_ratio\<close>.
  When the score of \<open>top_r\<close> is at least \<open>fuzzy_ratio_threshold\<close>, and so when it is
  equal to it, the result is the partial ratio match with the value of \<open>top_r\<close>. When
  it is below, and so when it is one point below, the token-set step decides: a score
  of \<open>top_s\<close> of at least \<open>fuzzy_set_threshold\<close>, and so one equal to it, gives the
  token set ratio match with the value of \<open>top_s\<close>, and a lower one gives the
  explanation \<open>No text match\<close> with the empty value.
\<close>

theorem thresholds_inclusive:
  assumes "user_weights args = []"
    and "only_filled_values (map (\<lambda>(u, g). convLine g) grp) = Inr filled"
    and "filled \<noteq> []"
    and "\<not> 1 < es_count (hd filled)"
    and "length filled \<noteq> 1"
    and "top_partial_ratio fz grp [] = Inr top_r"
    and "top_token_set_ratio fz (map (\<lambda>(u, g). convLine g) grp) = Inr top_s"
    and "count = int (length grp)"
    and "blanks = count - sum_list (map (\<lambda>f. int (es_count f)) filled)"
  shows "(fuzzy_ratio_threshold args \<le> frs_score top_r \<longrightarrow>
            reconcile fz grp args =
              Inr (''Partial ratio match on '' @ str_int count @ '' '' @ P ''record'' count
                     @ '' with '' @ str_int blanks @ '' '' @ P ''blank'' blanks
                     @ '', score='' @ str_int (frs_score top_r),
                   frs_value top_r))
       \<and> (frs_score top_r < fuzzy_ratio_threshold args
            \<and> fuzzy_set_threshold args \<le> fss_score top_s \<longrightarrow>
            reconcile fz grp args =
              Inr (''Token set ratio match on '' @ str_int count @ '' '' @ P ''record'' count
                     @ '' with '' @ str_int blanks @ '' '' @ P ''blank'' blanks
                     @ '', score='' @ str_int (fss_score top_s),
                   fss_value top_s))
       \<and> (frs_score top_r < fuzzy_ratio_threshold args
            \<and> fss_score top_s < fuzzy_set_threshold args \<longrightarrow>
            reconcile fz grp args =
              Inr (''No text match on '' @ str_int count @ '' '' @ P ''record'' count
                     @ '' with '' @ str_int blanks @ '' '' @ P ''blank'' blanks,
                   []))"
  unfolding reconcile_pairwise_steps [OF assms(1-5)] assms(6-9) by simp

theorem thresholds_inclusive_witness:
  "reconcile (const_fuzz 90 50) [(''a'', ''New York''), (''b'', ''New York City''), (''c'', '' '')] default_args
     = Inr (''Partial ratio match on 3 records with 1 blank, score=90'', ''New York City'')
   \<and> reconcile (const_fuzz 89 50) [(''a'', ''New York''), (''b'', ''New York City''), (''c'', '' '')] default_args
       = Inr (''Token set ratio match on 3 records with 1 blank, score=50'', ''New York City'')
   \<and> reconcile (const_fuzz 89 49) [(''a'', ''New York''), (''b'', ''New York City''), (''c'', '' '')] default_args
       = Inr (''No text match on 3 records with 1 blank'', [])"
proof -
  have h1: "user_weights default_args = []" by (simp add: default_args_def)
  have h2: "only_filled_values (map (\<lambda>(u, g). convLine g) [(''a'', ''New York''), (''b'', ''New York City''), (''c'', '' '')])
              = Inr [ExactScore ''New York'' 1, ExactScore ''New York City'' 1]"
    by code_simp
  have h3: "[ExactScore ''New York'' 1, ExactScore ''New York City'' 1] \<noteq> []" by simp
  have h4: "\<not> 1 < es_count (hd [ExactScore ''New York'' 1, ExactScore ''New York City'' 1])" by simp
  have h5: "length [ExactScore ''New York'' 1, ExactScore ''New York City'' 1] \<noteq> 1" by simp
  have r90: "top_partial_ratio (const_fuzz 90 50) [(''a'', ''New York''), (''b'', ''New York City''), (''c'', '' '')] [] = Inr (FuzzyRatioScore 90 ''New York City'')"
    by code_simp
  have r89: "top_partial_ratio (const_fuzz 89 50) [(''a'', ''New York''), (''b'', ''New York City''), (''c'', '' '')] [] = Inr (FuzzyRatioScore 89 ''New York City'')"
    by code_simp
  have r89': "top_partial_ratio (const_fuzz 89 49) [(''a'', ''New York''), (''b'', ''New York City''), (''c'', '' '')] [] = Inr (FuzzyRatioScore 89 ''New York City'')"
    by code_simp
  have s50: "top_token_set_ratio (const_fuzz 90 50) (map (\<lambda>(u, g). convLine g) [(''a'', ''New York''), (''b'', ''New York City''), (''c'', '' '')])
               = Inr (FuzzySetScore 50 ''New York City'' 3)"
    by code_simp
  have s50': "top_token_set_ratio (const_fuzz 89 50) (map (\<lambda>(u, g). convLine g) [(''a'', ''New York''), (''b'', ''New York City''), (''c'', '' '')])
               = Inr (FuzzySetScore 50 ''New York City'' 3)"
    by code_simp
  have s49: "top_token_set_ratio (const_fuzz 89 49) (map (\<lambda>(u, g). convLine g) [(''a'', ''New York''), (''b'', ''New York City''), (''c'', '' '')])
               = Inr (FuzzySetScore 49 ''New York City'' 3)"
    by code_simp
  have h8: "(3::int) = int (length [(''a'', ''New York''), (''b'', ''New York City''), (''c'', '' '')])" by simp
  have h9: "(1::int) = 3 - sum_list (map (\<lambda>f. int (es_count f))
                                  [ExactScore ''New York'' 1, ExactScore ''New York City'' 1])"
    by simp
  have str: "str_int 3 = ''3''" "str_int 1 = ''1''" "str_int 90 = ''90''" "str_int 50 = ''50''"
    by code_simp+
  have pl: "P ''record'' 3 = ''records''" "P ''blank'' 1 = ''blank''"
    by code_simp+
  have thr: "fuzzy_ratio_threshold default_args = 90" "fuzzy_set_threshold default_args = 50"
    by (simp_all add: default_args_def)
  have a: "reconcile (const_fuzz 90 50) [(''a'', ''New York''), (''b'', ''New York City''), (''c'', '' '')] default_args
     = Inr (''Partial ratio match on 3 records with 1 blank, score=90'', ''New York City'')"
    using thresholds_inclusive [OF h1 h2 h3 h4 h5 r90 s50 h8 h9] by (simp add: str pl thr)
  have b: "reconcile (const_fuzz 89 50) [(''a'', ''New York''), (''b'', ''New York City''), (''c'', '' '')] default_args
       = Inr (''Token set ratio match on 3 records with 1 blank, score=50'', ''New York City'')"
    using thresholds_inclusive [OF h1 h2 h3 h4 h5 r89 s50' h8 h9] by (simp add: str pl thr)
  have c: "reconcile (const_fuzz 89 49) [(''a'', ''New York''), (''b'', ''New York City''), (''c'', '' '')] default_args
       = Inr (''No text match on 3 records with 1 blank'', [])"
    using thresholds_inclusive [OF h1 h2 h3 h4 h5 r89' s49 h8 h9] by (simp add: str pl thr)
  from a b c show ?thesis by blast
qed

section \<open>Copies of one entry\<close>

lemma add_filled_first:
  "strip v \<noteq> [] \<Longrightarrow> add_filled [] v = [(lower (sub_nonword (strip v)), [strip v])]"
  by (simp add: add_filled_def Let_def)

lemma add_filled_same:
  "strip v \<noteq> [] \<Longrightarrow>
   add_filled [(lower (sub_nonword (strip v)), vals)] v =
     [(lower (sub_nonword (strip v)), vals @ [strip v])]"
  by (simp add: add_filled_def Let_def)

lemma foldl_add_filled_replicate:
  "strip v \<noteq> [] \<Longrightarrow>
   foldl add_filled [(lower (sub_nonword (strip v)), replicate n (strip v))] (replicate m v) =
     [(lower (sub_nonword (strip v)), replicate (n + m) (strip v))]"
proof (induction m arbitrary: n)
  case 0
  then show ?case by simp
next
  case (Suc m)
  have "foldl add_filled [(lower (sub_nonword (strip v)), replicate n (strip v))] (replicate (Suc m) v)
        = foldl add_filled [(lower (sub_nonword (strip v)), replicate (Suc n) (strip v))] (replicate m v)"
    using Suc.prems by (simp add: add_filled_same replicate_append_same)
  also have "\<dots> = [(lower (sub_nonword (strip v)), replicate (Suc n + m) (strip v))]"
    using Suc.prems by (rule Suc.IH)
  finally show ?case by simp
qed

lemma all_filled_replicate:
  assumes "strip v \<noteq> []"
  shows "all_filled_of (replicate (Suc k) v) = [(lower (sub_nonword (strip v)), replicate (Suc k) (strip v))]"
proof -
  have "all_filled_of (replicate (Suc k) v)
        = foldl add_filled [(lower (sub_nonword (strip v)), replicate 1 (strip v))] (replicate k v)"
    using assms by (simp add: all_filled_of_def add_filled_first)
  also have "\<dots> = [(lower (sub_nonword (strip v)), replicate (1 + k) (strip v))]"
    using assms by (rule foldl_add_filled_replicate)
  finally show ?thesis by simp
qed

lemma hd_sorted_rev_replicate: "hd (sorted_rev key (replicate (Suc k) x)) = x"
proof -
  have "hd (sorted_rev key (replicate (Suc k) x)) \<in> set (replicate (Suc k) x)"
    by (rule hd_sorted_rev_in) simp
  then show ?thesis by (metis in_set_replicate)
qed

lemma sorted_rev_single: "sorted_rev key [x] = [x]"
  by (simp add: sorted_rev_def)

lemma only_filled_values_replicate:
  assumes "strip v \<noteq> []"
  shows "only_filled_values (replicate (Suc k) v) = Inr [ExactScore (strip v) (Suc k)]"
  unfolding only_filled_values_Inr all_filled_replicate [OF assms]
  by (simp add: sorted_rev_single hd_sorted_rev_replicate del: replicate.simps)

lemma P_record_many: "n \<noteq> 1 \<Longrightarrow> P ''record'' n = ''records''"
  by (simp add: P_def plural_word_def)

lemma str_int_1: "str_int 1 = ''1''"
  by code_simp

lemma reconcile_copies:
  assumes "strip (convLine v) \<noteq> []" and "2 \<le> length users" and "user_weights args = []"
  shows "reconcile fz (map (\<lambda>u. (u, v)) users) args =
           Inr (''Normalized unanimous match, '' @ str_int (int (length users)) @ '' of ''
                  @ str_int (int (length users)) @ '' records'',
                strip (convLine v))"
proof -
  obtain k where k: "length users = Suc k" using assms(2) by (cases "length users") auto
  have vs: "map (\<lambda>(u, g). convLine g) (map (\<lambda>u. (u, v)) users) = replicate (Suc k) (convLine v)"
    using k by (simp add: comp_def map_replicate_const)
  have f: "only_filled_values (replicate (Suc k) (convLine v)) = Inr [ExactScore (strip (convLine v)) (Suc k)]"
    using assms(1) by (rule only_filled_values_replicate)
  have k1: "1 \<le> k" using assms(2) k by simp
  show ?thesis
    unfolding reconcile_def vs using assms(3) f k k1
    by (simp add: Let_def P_record_many del: replicate.simps)
qed

lemma reconcile_single:
  assumes "strip (convLine v) \<noteq> []" and "user_weights args = []"
  shows "reconcile fz [(u, v)] args = Inr (''Only 1 transcript in 1 record'', strip (convLine v))"
proof -
  have f: "only_filled_values [convLine v] = Inr [ExactScore (strip (convLine v)) (Suc 0)]"
    using only_filled_values_replicate [OF assms(1), of 0] by simp
  show ?thesis
    unfolding reconcile_def using assms(2) f
    by (simp add: Let_def P_def str_int_1)
qed

text \<open>
  C8, as the source has it. Let \<open>v\<close> be an entry that is not blank (it has a
  character that is not whitespace), written by two or more users. The group of these copies and the group
  of \<open>v\<close> alone give the same value, or raise the same exception when the configuration
  has user weights. Without user weights the value is the entry normalised and stripped
  in both cases. The explanations are two different sentences: a unanimous match of
  \<open>k\<close> of \<open>k\<close> records for the copies, one transcript in 1 record for the entry
  alone.
\<close>

theorem duplication_idempotent:
  assumes "\<exists>c\<in>set v. \<not> is_space c" and "2 \<le> length users"
  shows "map_sum id snd (reconcile fz (map (\<lambda>u. (u, v)) users) args)
           = map_sum id snd (reconcile fz [(u, v)] args)
       \<and> (user_weights args = [] \<longrightarrow>
            reconcile fz (map (\<lambda>u. (u, v)) users) args =
              Inr (''Normalized unanimous match, '' @ str_int (int (length users)) @ '' of ''
                     @ str_int (int (length users)) @ '' records'',
                   strip (convLine v))
            \<and> reconcile fz [(u, v)] args =
                Inr (''Only 1 transcript in 1 record'', strip (convLine v)))"
proof -
  have filled: "strip (convLine v) \<noteq> []"
    using assms(1) by (simp add: filled_iff)
  show ?thesis
  proof (cases "user_weights args = []")
    case True
    then show ?thesis
      using reconcile_copies [OF filled assms(2) True] reconcile_single [OF filled True] by simp
  next
    case False
    then show ?thesis by (simp add: reconcile_raises)
  qed
qed

theorem duplication_idempotent_witness:
  "(\<exists>c\<in>set ''New  York ''. \<not> is_space c)
   \<and> 2 \<le> length [''a'', ''b'', ''c'']
   \<and> reconcile (const_fuzz 0 0)
         [(''a'', ''New  York ''), (''b'', ''New  York ''), (''c'', ''New  York '')] default_args
       = Inr (''Normalized unanimous match, 3 of 3 records'', ''New York'')
   \<and> reconcile (const_fuzz 0 0) [(''a'', ''New  York '')] default_args
       = Inr (''Only 1 transcript in 1 record'', ''New York'')"
proof -
  have v: "strip (convLine ''New  York '') = ''New York''" by code_simp
  have h1: "\<exists>c\<in>set ''New  York ''. \<not> is_space c" by code_simp
  have h2: "2 \<le> length [''a'', ''b'', ''c'']" by simp
  have w: "user_weights default_args = []" by (simp add: default_args_def)
  have str: "str_int 3 = ''3''" by code_simp
  show ?thesis
    using h1 h2 w duplication_idempotent [OF h1 h2, of "const_fuzz 0 0" default_args "''a''"]
    by (simp add: v str)
qed

text \<open>
  C8 as the specification states it, with explanations that differ in their counts
  only, does not hold. Three copies of an entry give a unanimous match of 3 of 3
  records and the entry alone gives one transcript in 1 record: the words of the two
  explanations differ, not only the numbers among them.
\<close>

theorem duplication_changes_explanation:
  "reconcile (const_fuzz 0 0)
     [(''a'', ''New  York ''), (''b'', ''New  York ''), (''c'', ''New  York '')] default_args
     = Inr (''Normalized unanimous match, 3 of 3 records'', ''New York'')
   \<and> reconcile (const_fuzz 0 0) [(''a'', ''New  York '')] default_args
       = Inr (''Only 1 transcript in 1 record'', ''New York'')
   \<and> split ''Normalized unanimous match, 3 of 3 records''
       = [''Normalized'', ''unanimous'', ''match,'', ''3'', ''of'', ''3'', ''records'']
   \<and> split ''Only 1 transcript in 1 record''
       = [''Only'', ''1'', ''transcript'', ''in'', ''1'', ''record'']"
  by code_simp

section \<open>The entries that the pairwise steps compare\<close>

text \<open>
  C4, as the source has it. Both pairwise steps range over all entries of the group,
  the blank ones included, each entry normalised by \<open>convLine\<close>:
  \<open>top_partial_ratio\<close> and \<open>top_token_set_ratio\<close> score exactly the pairs of
  \<open>combinations\<close> on the list of the normalised entries, that is one pair for every two
  positions \<open>i < j\<close> of the group, made of the normalised entries at \<open>i\<close> and at \<open>j\<close>.
\<close>

theorem pairs_range_over_all_entries:
  "ratio_scores fz grp w =
     map (ratio_score fz (userAttribution_of (map (\<lambda>(u, line). (u, convLine line)) grp)) w)
       (combinations (map (\<lambda>(u, g). convLine g) grp))
   \<and> set_scores fz (map (\<lambda>(u, g). convLine g) grp) =
       map (set_score fz) (combinations (map (\<lambda>(u, g). convLine g) grp))
   \<and> ((a, b) \<in> set (combinations (map (\<lambda>(u, g). convLine g) grp)) \<longleftrightarrow>
        (\<exists>i j. i < j \<and> j < length grp \<and> a = convLine (snd (grp ! i)) \<and> b = convLine (snd (grp ! j))))"
proof -
  have "(a, b) \<in> set (combinations (map (\<lambda>(u, g). convLine g) grp)) \<longleftrightarrow>
        (\<exists>i j. i < j \<and> j < length grp
            \<and> a = map (\<lambda>(u, g). convLine g) grp ! i \<and> b = map (\<lambda>(u, g). convLine g) grp ! j)"
    by (simp add: set_combinations)
  also have "\<dots> \<longleftrightarrow>
        (\<exists>i j. i < j \<and> j < length grp \<and> a = convLine (snd (grp ! i)) \<and> b = convLine (snd (grp ! j)))"
    (is "?L \<longleftrightarrow> ?R")
  proof
    assume ?L
    then obtain i j where ij: "i < j" "j < length grp"
      and ab: "a = map (\<lambda>(u, g). convLine g) grp ! i" "b = map (\<lambda>(u, g). convLine g) grp ! j"
      by blast
    from ij have "i < length grp" by simp
    with ij ab have "i < j \<and> j < length grp \<and> a = convLine (snd (grp ! i)) \<and> b = convLine (snd (grp ! j))"
      by (simp add: case_prod_unfold)
    then show ?R by blast
  next
    assume ?R
    then obtain i j where ij: "i < j" "j < length grp"
      and ab: "a = convLine (snd (grp ! i))" "b = convLine (snd (grp ! j))"
      by blast
    from ij have "i < length grp" by simp
    with ij ab have "i < j \<and> j < length grp
        \<and> a = map (\<lambda>(u, g). convLine g) grp ! i \<and> b = map (\<lambda>(u, g). convLine g) grp ! j"
      by (simp add: case_prod_unfold)
    then show ?L by blast
  qed
  finally show ?thesis
    by (simp add: ratio_scores_eq set_scores_def)
qed

text \<open>
  C4 as the specification states it, with filled raw entries only, does not hold. In
  the group of \<open>New  York\<close> (with two spaces), a blank entry and \<open>Boston\<close>, three pairs
  are scored in each step and two of them have the blank entry as a member; with
  scorers that give 100 to these pairs alone, both steps return a match on such a
  pair, and the value is the normalised entry \<open>New York\<close>, not the raw one.
\<close>

theorem blank_entries_are_paired:
  "ratio_scores (blank_fuzz 100 0) [(''a'', ''New  York''), (''b'', []), (''c'', ''Boston'')] []
     = [FuzzyRatioScore 100 ''New York'', FuzzyRatioScore 0 ''New York'', FuzzyRatioScore 100 ''Boston'']
   \<and> set_scores (blank_fuzz 0 100) [''New York'', [], ''Boston'']
       = [FuzzySetScore 100 ''New York'' 2, FuzzySetScore 0 ''New York'' 2, FuzzySetScore 100 ''Boston'' 1]
   \<and> reconcile (blank_fuzz 100 0) [(''a'', ''New  York''), (''b'', []), (''c'', ''Boston'')] default_args
       = Inr (''Partial ratio match on 3 records with 1 blank, score=100'', ''New York'')
   \<and> reconcile (blank_fuzz 0 100) [(''a'', ''New  York''), (''b'', []), (''c'', ''Boston'')] default_args
       = Inr (''Token set ratio match on 3 records with 1 blank, score=100'', ''New York'')"
  by code_simp

section \<open>The author of a candidate\<close>

text \<open>
  C3, at a group whose longer entry is written by \<open>ASmith\<close>, with the weight 10 stored
  under the lowercased key \<open>asmith\<close>. \<open>top_partial_ratio\<close> looks the index label up as it
  is written: the weight is not found and the score stays at the partial ratio 80. For
  the author written \<open>asmith\<close> the same group scores 90.
\<close>

theorem weight_lookup_is_case_sensitive:
  "top_partial_ratio (const_fuzz 80 0)
     [(''ASmith'', ''New York City''), (''bob'', ''New York'')] [(''asmith'', 10)]
     = Inr (FuzzyRatioScore 80 ''New York City'')
   \<and> top_partial_ratio (const_fuzz 80 0)
       [(''asmith'', ''New York City''), (''bob'', ''New York'')] [(''asmith'', 10)]
       = Inr (FuzzyRatioScore 90 ''New York City'')"
  by code_simp

end
